theory Spec2Isabelle
  imports Main "HOL-Library.Word"
begin

unbundle bit_operations_syntax

section \<open>Data model of \<open>UIManager\<close>\<close>

text \<open>
  The firmware's fixed-width integers. Signed and unsigned types of one width share a
  word type: \<open>unat\<close>/\<open>uint\<close> read a word as unsigned, \<open>sint\<close> as two's complement.
  Arithmetic that C++ performs in \<open>int\<close> and then narrows is written on the narrow word,
  which is the same value modulo the width.
\<close>

type_synonym uint8_t = "8 word"
type_synonym int8_t = "8 word"
type_synonym int16_t = "16 word"
type_synonym uint32_t = "32 word"

text \<open>\<open>enum UIState\<close> and \<open>struct Parameter\<close> of \<open>UIManager.h\<close>. The field
  \<open>value\<close> is named \<open>value_p\<close> here.\<close>

datatype UIState = UI_MENU | UI_EDIT

record Parameter =
  name :: string
  cc :: uint8_t
  value_p :: uint8_t
  minVal :: uint8_t
  maxVal :: uint8_t

text \<open>Out-of-range array accesses are undefined behaviour in C++; the model reports them.\<close>

datatype error = OutOfBounds

text \<open>
  The members of \<open>class UIManager\<close>, the static ones included, and the function-local
  static \<open>stepAccumulator\<close> of the interrupt handler. The callback pointer is modelled by
  whether it is set (\<open>parameterCallback\<close>) and by the list of the calls made through it,
  oldest first (\<open>callbackLog\<close>).
\<close>

record UIManager =
  state :: UIState
  currentParamIndex :: uint8_t
  lastButtonState :: bool
  lastButtonTime :: uint32_t
  parameterCallback :: bool
  callbackLog :: "(uint8_t \<times> uint8_t) list"
  parameters :: "Parameter list"
  lastEncoderState :: uint8_t
  lastEncoderTime :: uint32_t
  encoderDelta :: int16_t
  stepAccumulator :: int8_t

definition mkParameter :: "string \<Rightarrow> uint8_t \<Rightarrow> uint8_t \<Rightarrow> uint8_t \<Rightarrow> uint8_t \<Rightarrow> Parameter" where
  "mkParameter n c v lo hi = \<lparr>name = n, cc = c, value_p = v, minVal = lo, maxVal = hi\<rparr>"

text \<open>The initialiser of \<open>UIManager::parameters[]\<close>.\<close>

definition parameters_table :: "Parameter list" where
  "parameters_table =
   [mkParameter ''Volume'' 7 76 0 127,
    mkParameter ''Wave '' 18 0 0 127,
    mkParameter ''Pitch'' 16 64 0 127,
    mkParameter ''Cutoff'' 74 64 0 127,
    mkParameter ''Res'' 71 0 0 127,
    mkParameter ''Env'' 17 64 0 127,
    mkParameter ''Decay'' 75 64 0 127,
    mkParameter ''Accent'' 15 64 0 127,
    mkParameter ''SubOsc'' 14 0 0 127,
    mkParameter ''Dist On'' 80 0 0 127,
    mkParameter ''Dist Mode'' 77 0 0 4,
    mkParameter ''Dist Amt'' 78 0 0 127,
    mkParameter ''Dist Mix'' 79 0 0 127,
    mkParameter ''Dly Time'' 81 32 0 127,
    mkParameter ''Dly Fdbk'' 82 64 0 127,
    mkParameter ''Dly Sync'' 86 32 0 127,
    mkParameter ''Dly L Div'' 91 32 0 127,
    mkParameter ''Dly R Div'' 92 32 0 127,
    mkParameter ''Dly L Mod'' 93 0 0 2,
    mkParameter ''Dly R Mod'' 94 0 0 2,
    mkParameter ''Dly Mix'' 83 38 0 127,
    mkParameter ''Glide'' 100 64 0 127]"

text \<open>\<open>paramCount = sizeof(parameters) / sizeof(Parameter)\<close>, narrowed to \<open>uint8_t\<close>.\<close>

definition paramCount :: "Parameter list \<Rightarrow> uint8_t" where
  "paramCount ps = of_nat (length ps)"

text \<open>The constructor together with the static member initialisers.\<close>

definition UIManager_init :: UIManager where
  "UIManager_init =
   \<lparr>state = UI_MENU, currentParamIndex = 0, lastButtonState = False, lastButtonTime = 0,
    parameterCallback = False, callbackLog = [], parameters = parameters_table,
    lastEncoderState = 0, lastEncoderTime = 0, encoderDelta = 0, stepAccumulator = 0\<rparr>"

section \<open>Encoder interrupt handler\<close>

definition kQuadratureTable :: "int8_t list list" where
  "kQuadratureTable =
   [[ 0,  1, -1,  0],
    [-1,  0,  0,  1],
    [ 1,  0,  0, -1],
    [ 0, -1,  1,  0]]"

text \<open>\<open>kQuadratureTable[p][c]\<close>.\<close>

definition quadratureLookup :: "uint8_t \<Rightarrow> uint8_t \<Rightarrow> error + int8_t" where
  "quadratureLookup p c =
   (if unat p < 4 \<and> unat c < 4 then Inr (kQuadratureTable ! unat p ! unat c)
    else Inl OutOfBounds)"

text \<open>\<open>(a << 1) | b\<close> for the two levels read by \<open>digitalRead\<close> (\<open>HIGH\<close> is 1).\<close>

definition pinCode :: "bool \<Rightarrow> bool \<Rightarrow> uint8_t" where
  "pinCode a b = push_bit 1 (of_bool a) OR of_bool b"

definition calculateAcceleration :: "uint32_t \<Rightarrow> uint8_t" where
  "calculateAcceleration deltaTime =
   (if deltaTime < 15 then 4
    else if deltaTime < 30 then 2
    else 1)"

text \<open>\<open>encoderDelta += d\<close>, the only write of the interrupt side to the pending delta.\<close>

definition addEncoderDelta :: "int16_t \<Rightarrow> UIManager \<Rightarrow> UIManager" where
  "addEncoderDelta d s = s\<lparr>encoderDelta := encoderDelta s + d\<rparr>"

text \<open>
  \<open>handleEncoderInterrupt\<close>, given the levels of the two encoder pins and the value
  \<open>millis()\<close> would return. The handler runs to completion before the polling context
  continues, so it is one step on the state.
\<close>

definition handleEncoderInterrupt :: "bool \<Rightarrow> bool \<Rightarrow> uint32_t \<Rightarrow> UIManager \<Rightarrow> error + UIManager" where
  "handleEncoderInterrupt a b now s =
   (let currentState = pinCode a b in
    case quadratureLookup (lastEncoderState s) currentState of
      Inl e \<Rightarrow> Inl e
    | Inr rawDelta \<Rightarrow>
        let s1 = s\<lparr>lastEncoderState := currentState\<rparr> in
        if rawDelta \<noteq> 0 then
          let acc = stepAccumulator s1 + rawDelta in
          if 2 \<le> \<bar>sint acc\<bar> then
            let direction = (if 0 < sint acc then 1 else - 1) :: int8_t;
                s2 = s1\<lparr>stepAccumulator := 0\<rparr>;
                deltaTime = now - lastEncoderTime s2;
                s3 = s2\<lparr>lastEncoderTime := now\<rparr>;
                multiplier = calculateAcceleration deltaTime
            in Inr (addEncoderDelta (scast direction * ucast multiplier) s3)
          else Inr (s1\<lparr>stepAccumulator := acc\<rparr>)
        else Inr s1)"

text \<open>A sequence of interrupts, each with its pin levels and clock value; the first
  out-of-range table access ends the run.\<close>

fun runInterrupts :: "(bool \<times> bool \<times> uint32_t) list \<Rightarrow> UIManager \<Rightarrow> error + UIManager" where
  "runInterrupts [] s = Inr s"
| "runInterrupts ((a, b, now) # evs) s =
     (case handleEncoderInterrupt a b now s of
        Inl e \<Rightarrow> Inl e
      | Inr s' \<Rightarrow> runInterrupts evs s')"

section \<open>Polling context\<close>

text \<open>
  \<open>readButton\<close>, given the level of the switch pin (\<open>True\<close> is \<open>HIGH\<close>, the button is
  active low) and the clock value. Returns whether a press is reported.
\<close>

definition readButton :: "bool \<Rightarrow> uint32_t \<Rightarrow> UIManager \<Rightarrow> bool \<times> UIManager" where
  "readButton currentState now s =
   (if \<not> currentState \<and> lastButtonState s then
      (if 100 < now - lastButtonTime s then
         (True, s\<lparr>lastButtonState := currentState, lastButtonTime := now\<rparr>)
       else (False, s))
    else if currentState \<and> \<not> lastButtonState s then
      (if 100 < now - lastButtonTime s then
         (False, s\<lparr>lastButtonState := currentState, lastButtonTime := now\<rparr>)
       else (False, s))
    else (False, s))"

text \<open>A sequence of polls of the button, each with the level read and the clock value:
  the press events reported, in order.\<close>

fun pollButton :: "(bool \<times> uint32_t) list \<Rightarrow> UIManager \<Rightarrow> bool list" where
  "pollButton [] s = []"
| "pollButton ((raw, now) # polls) s =
     fst (readButton raw now s) # pollButton polls (snd (readButton raw now s))"

text \<open>The critical section at the start of \<open>update\<close>: read the pending delta and
  reset it, with interrupts disabled.\<close>

definition drainDelta :: "UIManager \<Rightarrow> int16_t \<times> UIManager" where
  "drainDelta s = (encoderDelta s, s\<lparr>encoderDelta := 0\<rparr>)"

text \<open>The \<open>UI_MENU\<close> branch of \<open>update\<close>.\<close>

definition navigateMenu :: "int16_t \<Rightarrow> UIManager \<Rightarrow> UIManager" where
  "navigateMenu delta s =
   (let newIndex = (ucast (currentParamIndex s) :: int16_t) + delta;
        newIndex' =
          (if sint newIndex < 0 then ucast (paramCount (parameters s)) - 1
           else if uint (paramCount (parameters s)) \<le> sint newIndex then 0
           else newIndex)
    in s\<lparr>currentParamIndex := ucast newIndex'\<rparr>)"

text \<open>The new value computed in the \<open>UI_EDIT\<close> branch of \<open>update\<close>: the sum as an
  \<open>int16_t\<close>, the two clamping tests, and the narrowing to \<open>uint8_t\<close>.\<close>

definition newParamValue :: "Parameter \<Rightarrow> int16_t \<Rightarrow> uint8_t" where
  "newParamValue param delta =
   (let newValue = (ucast (value_p param) :: int16_t) + delta;
        newValue' =
          (if sint newValue < uint (minVal param) then ucast (minVal param)
           else if uint (maxVal param) < sint newValue then ucast (maxVal param)
           else newValue)
    in ucast newValue')"

text \<open>The \<open>UI_EDIT\<close> branch of \<open>update\<close>.\<close>

definition editParameter :: "int16_t \<Rightarrow> UIManager \<Rightarrow> error + UIManager" where
  "editParameter delta s =
   (let i = unat (currentParamIndex s) in
    if i < length (parameters s) then
      let param = parameters s ! i;
          param' = param\<lparr>value_p := newParamValue param delta\<rparr>;
          s1 = s\<lparr>parameters := (parameters s)[i := param']\<rparr>
      in Inr (if parameterCallback s1
              then s1\<lparr>callbackLog := callbackLog s1 @ [(cc param', value_p param')]\<rparr>
              else s1)
    else Inl OutOfBounds)"

text \<open>\<open>update\<close>, given what \<open>readButton\<close> will read. Returns \<open>needsRedraw\<close> and the
  new state.\<close>

definition update :: "bool \<Rightarrow> uint32_t \<Rightarrow> UIManager \<Rightarrow> error + (bool \<times> UIManager)" where
  "update sw now s =
   (let (delta, s0) = drainDelta s in
    case (if delta \<noteq> 0 then
            (case state s0 of
               UI_MENU \<Rightarrow> Inr (True, navigateMenu delta s0)
             | UI_EDIT \<Rightarrow> map_sum id (Pair True) (editParameter delta s0))
          else Inr (False, s0)) of
      Inl e \<Rightarrow> Inl e
    | Inr (needsRedraw, s1) \<Rightarrow>
        let (pressed, s2) = readButton sw now s1 in
        if pressed then
          Inr (True, s2\<lparr>state := (if state s2 = UI_MENU then UI_EDIT else UI_MENU)\<rparr>)
        else Inr (needsRedraw, s2))"

text \<open>The scan of \<open>updateParameterValue\<close>, from index \<open>i\<close> on.\<close>

function updateLoop :: "uint8_t \<Rightarrow> uint8_t \<Rightarrow> uint8_t \<Rightarrow> Parameter list \<Rightarrow> Parameter list" where
  "updateLoop c v i ps =
   (if i < paramCount ps then
      (if cc (ps ! unat i) = c then ps[unat i := (ps ! unat i)\<lparr>value_p := v\<rparr>]
       else updateLoop c v (i + 1) ps)
    else ps)"
  by pat_completeness auto
termination
proof (relation "measure (\<lambda>(c, v, i, ps). unat (paramCount ps) - unat i)")
  show "wf (measure (\<lambda>(c, v, i, ps). unat (paramCount ps) - unat i))"
    by simp
next
  fix c v :: uint8_t and i :: uint8_t and ps :: "Parameter list"
  assume less: "i < paramCount ps"
  then have "unat i < unat (paramCount ps)"
    by (simp add: word_less_nat_alt)
  moreover have "unat (paramCount ps) < 256"
    using unsigned_less [of "paramCount ps", where ?'a = nat] by simp
  ultimately have "unat (i + 1) = unat i + 1"
    by (simp add: unat_arith_simps)
  with \<open>unat i < unat (paramCount ps)\<close> show "((c, v, i + 1, ps), (c, v, i, ps))
      \<in> measure (\<lambda>(c, v, i, ps). unat (paramCount ps) - unat i)"
    by simp
qed

definition updateParameterValue :: "uint8_t \<Rightarrow> uint8_t \<Rightarrow> UIManager \<Rightarrow> UIManager" where
  "updateParameterValue c v s = s\<lparr>parameters := updateLoop c v 0 (parameters s)\<rparr>"

declare updateLoop.simps [simp del]

section \<open>Specification-side notions\<close>


text \<open>
  The debouncer in the specification's words, on its own state (the stable level and the
  time of the last committed transition): if the raw level differs from the stable level
  and more than 100 time-units have passed since the last transition, commit the raw
  level and the time, and report a press if the new stable level is pressed. Levels are
  pin levels: \<open>True\<close> is \<open>HIGH\<close>, released; pressed is \<open>\<not> raw\<close>.
\<close>

fun debouncer_spec :: "(bool \<times> uint32_t) list \<Rightarrow> bool \<Rightarrow> uint32_t \<Rightarrow> bool list" where
  "debouncer_spec [] stableLevel lastTransition = []"
| "debouncer_spec ((raw, now) # polls) stableLevel lastTransition =
     (if raw \<noteq> stableLevel \<and> 100 < now - lastTransition
      then (\<not> raw) # debouncer_spec polls raw now
      else False # debouncer_spec polls stableLevel lastTransition)"

text \<open>\<open>clamp(x, lo, hi)\<close> of the specification, on unbounded integers.\<close>

definition clamp :: "int \<Rightarrow> int \<Rightarrow> int \<Rightarrow> int" where
  "clamp x lo hi = (if x < lo then lo else if hi < x then hi else x)"

text \<open>The scan of \<open>updateParameterValue\<close> as a recursion on the array: store \<open>v\<close> in the
  first entry whose \<open>cc\<close> is \<open>c\<close>. The index loop \<open>updateLoop\<close> is proved equal to it
  below (\<open>updateLoop_0\<close>); it serves the proofs only.\<close>

fun storeFirst :: "uint8_t \<Rightarrow> uint8_t \<Rightarrow> Parameter list \<Rightarrow> Parameter list" where
  "storeFirst c v [] = []"
| "storeFirst c v (p # ps) =
     (if cc p = c then p\<lparr>value_p := v\<rparr> # ps else p # storeFirst c v ps)"

text \<open>The part of \<open>update\<close> from the call of \<open>readButton\<close> on, given the redraw
  flag so far: it is the second \<open>case\<close> branch of \<open>update\<close> (\<open>update_menu\<close>,
  \<open>update_edit\<close> and \<open>update_idle\<close> below) and serves the proofs only.\<close>

definition buttonPhase :: "bool \<Rightarrow> uint32_t \<Rightarrow> bool \<Rightarrow> UIManager \<Rightarrow> bool \<times> UIManager" where
  "buttonPhase sw now needsRedraw s1 =
   (if fst (readButton sw now s1)
    then (True, (snd (readButton sw now s1))\<lparr>state := (if state s1 = UI_MENU then UI_EDIT else UI_MENU)\<rparr>)
    else (needsRedraw, snd (readButton sw now s1)))"

section \<open>Quadrature decoding\<close>

text \<open>
  C4. For each of the 16 pairs of a previous and a current 2-bit pin code, the lookup in
  \<open>kQuadratureTable\<close> that \<open>handleEncoderInterrupt\<close> performs returns the signed
  value of the table with rows and columns in the order 00, 01, 10, 11: row 00 is
  0, +1, -1, 0; row 01 is -1, 0, 0, +1; row 10 is +1, 0, 0, -1; row 11 is 0, -1, +1, 0.
  The identity transitions and the transitions between opposite codes (00 and 11,
  01 and 10) give 0.
\<close>

theorem quadratureLookup_table:
  "quadratureLookup 0 0 = Inr 0 \<and> quadratureLookup 0 1 = Inr 1
   \<and> quadratureLookup 0 2 = Inr (- 1) \<and> quadratureLookup 0 3 = Inr 0
   \<and> quadratureLookup 1 0 = Inr (- 1) \<and> quadratureLookup 1 1 = Inr 0
   \<and> quadratureLookup 1 2 = Inr 0 \<and> quadratureLookup 1 3 = Inr 1
   \<and> quadratureLookup 2 0 = Inr 1 \<and> quadratureLookup 2 1 = Inr 0
   \<and> quadratureLookup 2 2 = Inr 0 \<and> quadratureLookup 2 3 = Inr (- 1)
   \<and> quadratureLookup 3 0 = Inr 0 \<and> quadratureLookup 3 1 = Inr (- 1)
   \<and> quadratureLookup 3 2 = Inr 1 \<and> quadratureLookup 3 3 = Inr 0"
  by (simp add: quadratureLookup_def kQuadratureTable_def)

section \<open>Acceleration\<close>

text \<open>
  C7. For every elapsed time \<open>deltaTime\<close> (an unsigned 32-bit count of milliseconds),
  \<open>calculateAcceleration\<close> returns 4 when it is below 15, 2 when it is at least 15 and
  below 30, and 1 when it is at least 30. At the boundaries: 14 gives 4, 15 gives 2,
  29 gives 2, 30 gives 1, and 1000 gives 1.
\<close>

theorem calculateAcceleration_thresholds:
  "calculateAcceleration deltaTime =
     (if unat deltaTime < 15 then 4 else if unat deltaTime < 30 then 2 else 1)
   \<and> calculateAcceleration 14 = 4 \<and> calculateAcceleration 15 = 2
   \<and> calculateAcceleration 29 = 2 \<and> calculateAcceleration 30 = 1
   \<and> calculateAcceleration 1000 = 1"
  by (simp add: calculateAcceleration_def word_less_nat_alt)

section \<open>The parameter store: \<open>updateParameterValue\<close>\<close>

subsection \<open>The index loop is the scan for the first match\<close>

lemma paramCount_unat: "length ps < 256 \<Longrightarrow> unat (paramCount ps) = length ps"
  by (simp add: paramCount_def unat_of_nat)

lemma unat_word8_Suc:
  fixes i n :: uint8_t
  assumes "i < n"
  shows "unat (i + 1) = Suc (unat i)"
proof -
  from assms have "unat i < unat n" by (simp add: word_less_nat_alt)
  moreover have "unat n < 256" using unsigned_less [of n, where ?'a = nat] by simp
  ultimately show ?thesis by (simp add: unat_arith_simps)
qed

lemma updateLoop_storeFirst:
  "length ps < 256 \<Longrightarrow> unat i \<le> length ps \<Longrightarrow>
   updateLoop c v i ps = take (unat i) ps @ storeFirst c v (drop (unat i) ps)"
proof (induction c v i ps rule: updateLoop.induct)
  case (1 c v i ps)
  show ?case
  proof (cases "i < paramCount ps")
    case False
    with "1.prems" have "unat i = length ps"
      by (simp add: word_less_nat_alt paramCount_unat)
    with False show ?thesis
      by (simp add: updateLoop.simps [of c v i ps])
  next
    case True
    with "1.prems" have lt: "unat i < length ps"
      by (simp add: word_less_nat_alt paramCount_unat)
    have suc: "unat (i + 1) = Suc (unat i)"
      using True by (rule unat_word8_Suc)
    have dr: "drop (unat i) ps = ps ! unat i # drop (Suc (unat i)) ps"
      using lt by (simp add: Cons_nth_drop_Suc)
    show ?thesis
    proof (cases "cc (ps ! unat i) = c")
      case hit: True
      with True lt show ?thesis
        by (simp add: updateLoop.simps [of c v i ps] dr upd_conv_take_nth_drop)
    next
      case miss: False
      from lt suc have "unat (i + 1) \<le> length ps" by simp
      with "1.IH" [OF True miss "1.prems"(1)]
      have "updateLoop c v (i + 1) ps =
          take (Suc (unat i)) ps @ storeFirst c v (drop (Suc (unat i)) ps)"
        by (simp add: suc)
      with True miss lt show ?thesis
        by (simp add: updateLoop.simps [of c v i ps] dr take_Suc_conv_app_nth)
    qed
  qed
qed

lemma updateLoop_0: "length ps < 256 \<Longrightarrow> updateLoop c v 0 ps = storeFirst c v ps"
  using updateLoop_storeFirst [of ps 0 c v] by simp

lemma length_storeFirst: "length (storeFirst c v ps) = length ps"
  by (induction ps) simp_all

lemma storeFirst_nth:
  "j < length ps \<Longrightarrow>
   storeFirst c v ps ! j =
     (if cc (ps ! j) = c \<and> (\<forall>k<j. cc (ps ! k) \<noteq> c) then (ps ! j)\<lparr>value_p := v\<rparr> else ps ! j)"
proof (induction ps arbitrary: j)
  case Nil
  then show ?case by simp
next
  case (Cons p ps)
  show ?case
  proof (cases j)
    case 0
    then show ?thesis by simp
  next
    case (Suc j')
    with Cons.prems have "j' < length ps" by simp
    note IH = Cons.IH [OF this]
    show ?thesis
    proof (cases "cc p = c")
      case True
      then show ?thesis using Suc by auto
    next
      case False
      have "(\<forall>k<Suc j'. cc ((p # ps) ! k) \<noteq> c) \<longleftrightarrow> (\<forall>k<j'. cc (ps ! k) \<noteq> c)"
        using False by (auto simp: less_Suc_eq_0_disj)
      with False IH Suc show ?thesis by (simp del: all_simps) blast
    qed
  qed
qed

lemma storeFirst_no_match: "\<forall>p\<in>set ps. cc p \<noteq> c \<Longrightarrow> storeFirst c v ps = ps"
  by (induction ps) simp_all



lemma parameters_init_length: "length (parameters UIManager_init) < 256"
  by (simp add: UIManager_init_def parameters_table_def)


subsection \<open>Bounds\<close>




subsection \<open>Frame\<close>

text \<open>
  C10. For every \<open>cc\<close> and value argument, \<open>updateParameterValue\<close> changes nothing but
  the parameter array (the UI mode and the selected index among the rest), keeps the
  array's length, and keeps \<open>name\<close>, \<open>cc\<close>, \<open>minVal\<close> and \<open>maxVal\<close> of every entry;
  the \<open>value\<close> of entry \<open>j\<close> becomes the argument when \<open>j\<close> is the first index whose
  \<open>cc\<close> equals the argument and is unchanged otherwise; when no entry has that \<open>cc\<close>
  the whole state is unchanged. (The array has fewer than 256 entries, as \<open>paramCount\<close>
  is a \<open>uint8_t\<close>.)
\<close>

theorem updateParameterValue_frame:
  assumes "length (parameters s) < 256"
  shows "updateParameterValue c v s = s\<lparr>parameters := parameters (updateParameterValue c v s)\<rparr>
   \<and> state (updateParameterValue c v s) = state s
   \<and> currentParamIndex (updateParameterValue c v s) = currentParamIndex s
   \<and> length (parameters (updateParameterValue c v s)) = length (parameters s)
   \<and> (\<forall>j<length (parameters s).
        name (parameters (updateParameterValue c v s) ! j) = name (parameters s ! j)
        \<and> cc (parameters (updateParameterValue c v s) ! j) = cc (parameters s ! j)
        \<and> minVal (parameters (updateParameterValue c v s) ! j) = minVal (parameters s ! j)
        \<and> maxVal (parameters (updateParameterValue c v s) ! j) = maxVal (parameters s ! j)
        \<and> value_p (parameters (updateParameterValue c v s) ! j) =
            (if cc (parameters s ! j) = c \<and> (\<forall>k<j. cc (parameters s ! k) \<noteq> c) then v
             else value_p (parameters s ! j)))
   \<and> ((\<forall>p\<in>set (parameters s). cc p \<noteq> c) \<longrightarrow> updateParameterValue c v s = s)"
proof -
  have ps: "parameters (updateParameterValue c v s) = storeFirst c v (parameters s)"
    using assms by (simp add: updateParameterValue_def updateLoop_0)
  have fields: "updateParameterValue c v s = s\<lparr>parameters := parameters (updateParameterValue c v s)\<rparr>"
    "state (updateParameterValue c v s) = state s"
    "currentParamIndex (updateParameterValue c v s) = currentParamIndex s"
    by (simp_all add: updateParameterValue_def)
  have len: "length (parameters (updateParameterValue c v s)) = length (parameters s)"
    by (simp add: ps length_storeFirst)
  have nth: "\<forall>j<length (parameters s).
        name (parameters (updateParameterValue c v s) ! j) = name (parameters s ! j)
        \<and> cc (parameters (updateParameterValue c v s) ! j) = cc (parameters s ! j)
        \<and> minVal (parameters (updateParameterValue c v s) ! j) = minVal (parameters s ! j)
        \<and> maxVal (parameters (updateParameterValue c v s) ! j) = maxVal (parameters s ! j)
        \<and> value_p (parameters (updateParameterValue c v s) ! j) =
            (if cc (parameters s ! j) = c \<and> (\<forall>k<j. cc (parameters s ! k) \<noteq> c) then v
             else value_p (parameters s ! j))"
    by (auto simp: ps storeFirst_nth)
  have none: "(\<forall>p\<in>set (parameters s). cc p \<noteq> c) \<longrightarrow> updateParameterValue c v s = s"
    by (simp add: updateParameterValue_def updateLoop_0 [OF assms] storeFirst_no_match)
  from fields len nth none show ?thesis by blast
qed

theorem updateParameterValue_frame_witness:
  "length (parameters UIManager_init) < 256
   \<and> value_p (parameters (updateParameterValue 7 100 UIManager_init) ! 0) = 100
   \<and> value_p (parameters (updateParameterValue 7 100 UIManager_init) ! 1) = 0
   \<and> name (parameters (updateParameterValue 7 100 UIManager_init) ! 0) = ''Volume''
   \<and> state (updateParameterValue 7 100 UIManager_init) = UI_MENU
   \<and> currentParamIndex (updateParameterValue 7 100 UIManager_init) = 0
   \<and> updateParameterValue 200 100 UIManager_init = UIManager_init"
proof -
  note frame = updateParameterValue_frame [OF parameters_init_length]
  have len: "length (parameters UIManager_init) = 22"
    by (simp add: UIManager_init_def parameters_table_def)
  from frame [of 7 100] len
  have "\<forall>j<22. value_p (parameters (updateParameterValue 7 100 UIManager_init) ! j) =
            (if cc (parameters UIManager_init ! j) = 7
                \<and> (\<forall>k<j. cc (parameters UIManager_init ! k) \<noteq> 7) then 100
             else value_p (parameters UIManager_init ! j))"
    and "\<forall>j<22. name (parameters (updateParameterValue 7 100 UIManager_init) ! j)
            = name (parameters UIManager_init ! j)"
    and "state (updateParameterValue 7 100 UIManager_init) = state UIManager_init"
    and "currentParamIndex (updateParameterValue 7 100 UIManager_init)
            = currentParamIndex UIManager_init"
    by simp_all
  then have "value_p (parameters (updateParameterValue 7 100 UIManager_init) ! 0) = 100"
    and "value_p (parameters (updateParameterValue 7 100 UIManager_init) ! 1) = 0"
    and "name (parameters (updateParameterValue 7 100 UIManager_init) ! 0) = ''Volume''"
    and "state (updateParameterValue 7 100 UIManager_init) = UI_MENU"
    and "currentParamIndex (updateParameterValue 7 100 UIManager_init) = 0"
    by (simp_all add: UIManager_init_def parameters_table_def mkParameter_def)
  moreover have "\<forall>p\<in>set (parameters UIManager_init). cc p \<noteq> 200"
    by (simp add: UIManager_init_def parameters_table_def mkParameter_def)
  with frame [of 200 100] have "updateParameterValue 200 100 UIManager_init = UIManager_init"
    by blast
  ultimately show ?thesis using parameters_init_length by simp
qed

section \<open>Machine arithmetic\<close>

text \<open>Ranges of the integer types, and the value of a 16-bit sum that has wrapped.\<close>

lemma uint8_bounds: "0 \<le> uint (i :: 8 word) \<and> uint i < 256"
  using uint_lt2p [of i] by simp

lemma uint16_bounds: "0 \<le> uint (i :: 16 word) \<and> uint i < 65536"
  using uint_lt2p [of i] by simp

lemma sint16_bounds: "- 32768 \<le> sint (d :: 16 word) \<and> sint d < 32768"
  using sint_ge [of d] sint_lt [of d] by simp

lemma mod_65536_second_period: "65536 \<le> x \<Longrightarrow> x < 131072 \<Longrightarrow> x mod 65536 = x - (65536 :: int)"
proof -
  assume a: "65536 \<le> x" "x < 131072"
  then have "(x - 65536) mod 65536 = x - 65536"
    by (intro mod_pos_pos_trivial) simp_all
  moreover have "(x - 65536) mod 65536 = x mod 65536"
    by (rule minus_mod_self2)
  ultimately show ?thesis by simp
qed

lemma signed_take_bit_15_mod: "signed_take_bit 15 (n :: int) = (n + 32768) mod 65536 - 32768"
  by (simp add: signed_take_bit_eq_take_bit_shift take_bit_eq_mod)

lemma signed_take_bit_15_cases:
  assumes "- 32768 \<le> n" and "n < 98304"
  shows "signed_take_bit 15 (n :: int) = (if n \<le> 32767 then n else n - 65536)"
proof (cases "n \<le> 32767")
  case True
  with assms show ?thesis by (simp add: signed_take_bit_15_mod mod_pos_pos_trivial)
next
  case False
  with assms have "(n + 32768) mod 65536 = n + 32768 - 65536"
    by (intro mod_65536_second_period) simp_all
  with False show ?thesis by (simp add: signed_take_bit_15_mod)
qed

lemma uint_ucast_8_16: "uint (ucast (i :: 8 word) :: 16 word) = uint i"
  by (simp add: uint_up_ucast is_up)

lemma sint_ucast_8_16: "sint (ucast (i :: 8 word) :: 16 word) = uint i"
proof -
  have "signed_take_bit 15 (uint i) = (if uint i \<le> 32767 then uint i else uint i - 65536)"
    using uint8_bounds [of i] by (intro signed_take_bit_15_cases) linarith+
  then show ?thesis
    using uint8_bounds [of i] by (simp add: sint_uint uint_ucast_8_16)
qed

lemma sint_widened_sum: "sint ((ucast (i :: 8 word) :: 16 word) + d) =
   (if uint i + sint d \<le> 32767 then uint i + sint d else uint i + sint d - 65536)"
proof -
  have "sint ((ucast i :: 16 word) + d) = signed_take_bit 15 (uint i + sint d)"
    by (simp add: sint_word_ariths sint_ucast_8_16)
  also have "\<dots> = (if uint i + sint d \<le> 32767 then uint i + sint d else uint i + sint d - 65536)"
    using uint8_bounds [of i] sint16_bounds [of d] by (intro signed_take_bit_15_cases) linarith+
  finally show ?thesis .
qed

lemma sint16_nonneg: "0 \<le> sint (w :: 16 word) \<Longrightarrow> uint w = sint w"
proof -
  assume a: "0 \<le> sint w"
  have "signed_take_bit 15 (uint w) = (if uint w \<le> 32767 then uint w else uint w - 65536)"
    using uint16_bounds [of w] by (intro signed_take_bit_15_cases) linarith+
  then have s: "sint w = (if uint w \<le> 32767 then uint w else uint w - 65536)"
    by (simp add: sint_uint)
  show ?thesis
  proof (cases "uint w \<le> 32767")
    case True
    with s show ?thesis by simp
  next
    case False
    with s a uint16_bounds [of w] show ?thesis by simp
  qed
qed

lemma uint_narrowed: "0 \<le> sint (w :: 16 word) \<Longrightarrow> sint w < 256 \<Longrightarrow> uint (ucast w :: 8 word) = sint w"
proof -
  assume a: "0 \<le> sint w" "sint w < 256"
  then have "uint w = sint w" by (simp add: sint16_nonneg)
  moreover have "uint (ucast w :: 8 word) = uint w mod 256"
    by (simp add: unsigned_ucast_eq take_bit_eq_mod)
  ultimately show ?thesis using a by (simp add: mod_pos_pos_trivial)
qed

lemma uint_narrowed_pred: "0 < uint c \<Longrightarrow> uint (ucast ((ucast (c :: 8 word) :: 16 word) - 1) :: 8 word) = uint c - 1"
proof -
  assume a: "0 < uint c"
  have "uint ((ucast c :: 16 word) - 1) = (uint c - 1) mod 65536"
    by (simp add: uint_word_ariths uint_ucast_8_16)
  with a have "uint ((ucast c :: 16 word) - 1) = uint c - 1"
    using uint8_bounds [of c] by (simp add: mod_pos_pos_trivial)
  moreover have "uint (ucast ((ucast c :: 16 word) - 1) :: 8 word) = uint ((ucast c :: 16 word) - 1) mod 256"
    by (simp add: unsigned_ucast_eq take_bit_eq_mod)
  ultimately show ?thesis
    using a uint8_bounds [of c] by (simp add: mod_pos_pos_trivial)
qed


lemma paramCount_uint: "length ps < 256 \<Longrightarrow> uint (paramCount ps) = int (length ps)"
  by (simp add: paramCount_def uint_nat unat_of_nat)

lemma menu_wrap:
  fixes i c :: uint8_t and d :: int16_t
  assumes "uint i < uint c"
  shows "uint (ucast (if sint ((ucast i :: int16_t) + d) < 0 then ucast c - 1
                      else if uint c \<le> sint ((ucast i :: int16_t) + d) then 0
                      else (ucast i :: int16_t) + d) :: uint8_t)
       = (if uint i + sint d < 0 \<or> 32767 < uint i + sint d then uint c - 1
          else if uint c \<le> uint i + sint d then 0 else uint i + sint d)"
proof -
  let ?n = "uint i + sint d"
  let ?w = "(ucast i :: int16_t) + d"
  have w: "sint ?w = (if ?n \<le> 32767 then ?n else ?n - 65536)"
    by (rule sint_widened_sum)
  have cpos: "0 < uint c"
    using assms uint8_bounds [of i] by linarith
  have bounds: "- 32768 \<le> ?n" "?n < 33023"
    using uint8_bounds [of i] sint16_bounds [of d] by linarith+
  consider (neg) "?n < 0" | (wrapped) "32767 < ?n" | (over) "0 \<le> ?n" "?n \<le> 32767" "uint c \<le> ?n"
    | (inside) "0 \<le> ?n" "?n < uint c"
    using uint8_bounds [of c] by linarith
  then show ?thesis
  proof cases
    case neg
    with w have "sint ?w < 0" by simp
    with neg cpos show ?thesis by (simp add: uint_narrowed_pred)
  next
    case wrapped
    with w bounds have "sint ?w < 0" by simp
    with wrapped cpos show ?thesis by (simp add: uint_narrowed_pred)
  next
    case over
    with w have "sint ?w = ?n" by simp
    with over show ?thesis by simp
  next
    case inside
    with uint8_bounds [of c] have small: "?n \<le> 32767" by linarith
    with w have eq: "sint ?w = ?n" by simp
    with inside uint8_bounds [of c] have "uint (ucast ?w :: uint8_t) = ?n"
      by (simp add: uint_narrowed)
    with inside eq small show ?thesis by simp
  qed
qed

section \<open>The phases of \<open>update\<close>\<close>

lemma readButton_keeps:
  "state (snd (readButton sw now s)) = state s"
  "currentParamIndex (snd (readButton sw now s)) = currentParamIndex s"
  "parameters (snd (readButton sw now s)) = parameters s"
  "callbackLog (snd (readButton sw now s)) = callbackLog s"
  "parameterCallback (snd (readButton sw now s)) = parameterCallback s"
  "encoderDelta (snd (readButton sw now s)) = encoderDelta s"
  by (simp_all add: readButton_def)

lemma buttonPhase_keeps:
  "currentParamIndex (snd (buttonPhase sw now r s)) = currentParamIndex s"
  "parameters (snd (buttonPhase sw now r s)) = parameters s"
  "callbackLog (snd (buttonPhase sw now r s)) = callbackLog s"
  "encoderDelta (snd (buttonPhase sw now r s)) = encoderDelta s"
  by (simp_all add: buttonPhase_def readButton_keeps)

lemma buttonPhase_redraw: "fst (buttonPhase sw now True s)"
  by (simp add: buttonPhase_def)

lemma update_menu:
  assumes "state s = UI_MENU" and "encoderDelta s \<noteq> 0"
  shows "update sw now s =
     Inr (buttonPhase sw now True (navigateMenu (encoderDelta s) (s\<lparr>encoderDelta := 0\<rparr>)))"
  using assms
  by (simp add: update_def drainDelta_def buttonPhase_def readButton_keeps split_beta)

lemma update_edit:
  assumes "state s = UI_EDIT" and "encoderDelta s \<noteq> 0"
  shows "update sw now s =
     map_sum id (buttonPhase sw now True) (editParameter (encoderDelta s) (s\<lparr>encoderDelta := 0\<rparr>))"
  using assms
  by (cases "editParameter (encoderDelta s) (s\<lparr>encoderDelta := 0\<rparr>)")
     (simp_all add: update_def drainDelta_def buttonPhase_def readButton_keeps split_beta)

lemma update_idle:
  assumes "encoderDelta s = 0"
  shows "update sw now s = Inr (buttonPhase sw now False s)"
proof -
  from assms have same: "s\<lparr>encoderDelta := 0\<rparr> = s"
    by (cases s) simp
  from assms have "update sw now s = Inr (buttonPhase sw now False (s\<lparr>encoderDelta := 0\<rparr>))"
    by (simp add: update_def drainDelta_def buttonPhase_def readButton_keeps split_beta)
  then show ?thesis
    by (simp only: same)
qed

section \<open>Menu navigation\<close>

text \<open>
  C2, as stated, fails for jumps of more than one step past either end: from index 21 of
  22 a drained delta of +2 gives index 0, not \<open>(21 + 2) mod 22 = 1\<close>, and from index 0 a
  delta of -2 gives index 21, not \<open>(0 - 2) mod 22 = 20\<close>.
\<close>

theorem update_menu_not_modular:
  "update False 0 (UIManager_init\<lparr>currentParamIndex := 21, encoderDelta := 2\<rparr>)
     = Inr (True, UIManager_init\<lparr>currentParamIndex := 0\<rparr>)
   \<and> (21 + 2) mod 22 = (1 :: int)
   \<and> update False 0 (UIManager_init\<lparr>currentParamIndex := 0, encoderDelta := - 2\<rparr>)
     = Inr (True, UIManager_init\<lparr>currentParamIndex := 21\<rparr>)
   \<and> (0 - 2) mod 22 = (20 :: int)"
  by (simp add: update_def drainDelta_def navigateMenu_def readButton_def
      UIManager_init_def paramCount_def parameters_table_def)

text \<open>
  C2, amended. In Menu mode with a drained \<open>delta \<noteq> 0\<close> and a starting index in
  \<open>[0, count - 1]\<close>, \<open>update\<close> marks a redraw and sets the index to \<open>index + delta\<close>
  when that sum lies in \<open>[0, count - 1]\<close>, to \<open>count - 1\<close> when the sum is negative (or
  exceeds 32767 and so is negative as an \<open>int16_t\<close>), and to 0 when the sum is at least
  \<open>count\<close>. This is \<open>(index + delta) mod count\<close> whenever the sum lies in
  \<open>[-1, count]\<close>, which covers \<open>delta = +1\<close> and \<open>delta = -1\<close>.
\<close>

theorem update_menu_selection:
  assumes "state s = UI_MENU" and "encoderDelta s \<noteq> 0"
    and "length (parameters s) < 256"
    and "unat (currentParamIndex s) < length (parameters s)"
  shows "\<exists>s'. update sw now s = Inr (True, s') \<and>
     (let n = uint (currentParamIndex s) + sint (encoderDelta s);
          count = int (length (parameters s))
      in uint (currentParamIndex s') =
           (if n < 0 \<or> 32767 < n then count - 1 else if count \<le> n then 0 else n)
         \<and> (- 1 \<le> n \<and> n \<le> count \<longrightarrow> uint (currentParamIndex s') = n mod count))"
proof -
  let ?n = "uint (currentParamIndex s) + sint (encoderDelta s)"
  let ?count = "int (length (parameters s))"
  let ?m = "navigateMenu (encoderDelta s) (s\<lparr>encoderDelta := 0\<rparr>)"
  let ?s' = "snd (buttonPhase sw now True ?m)"
  have count: "uint (paramCount (parameters s)) = ?count"
    using assms(3) by (rule paramCount_uint)
  have less: "uint (currentParamIndex s) < uint (paramCount (parameters s))"
    unfolding count using assms(4) by (simp only: uint_nat of_nat_less_iff)
  have "currentParamIndex ?m =
      ucast (if sint ((ucast (currentParamIndex s) :: int16_t) + encoderDelta s) < 0
             then ucast (paramCount (parameters s)) - 1
             else if uint (paramCount (parameters s))
                       \<le> sint ((ucast (currentParamIndex s) :: int16_t) + encoderDelta s) then 0
             else (ucast (currentParamIndex s) :: int16_t) + encoderDelta s)"
    by (simp add: navigateMenu_def Let_def)
  then have "uint (currentParamIndex ?m) =
      (if ?n < 0 \<or> 32767 < ?n then uint (paramCount (parameters s)) - 1
       else if uint (paramCount (parameters s)) \<le> ?n then 0 else ?n)"
    by (simp only: menu_wrap [OF less])
  then have "uint (currentParamIndex ?m) =
      (if ?n < 0 \<or> 32767 < ?n then ?count - 1 else if ?count \<le> ?n then 0 else ?n)"
    by (simp only: count)
  then have idx: "uint (currentParamIndex ?s') =
      (if ?n < 0 \<or> 32767 < ?n then ?count - 1 else if ?count \<le> ?n then 0 else ?n)"
    by (simp add: buttonPhase_keeps)
  have pos: "0 < ?count"
    using assms(4) by (cases "parameters s") simp_all
  have wrap: "uint (currentParamIndex ?s') = ?n mod ?count" if lo: "- 1 \<le> ?n" and hi: "?n \<le> ?count"
  proof -
    consider "?n = - 1" | "?n = ?count" | "0 \<le> ?n" "?n < ?count"
      using lo hi by linarith
    then show ?thesis
    proof cases
      case 1
      have "(- 1) mod ?count = ?count - 1"
        using pos by (simp add: zmod_minus1)
      with 1 idx show ?thesis by simp
    next
      case 2
      with idx pos assms(3) show ?thesis by simp
    next
      case 3
      with idx assms(3) show ?thesis by (simp add: mod_pos_pos_trivial)
    qed
  qed
  have "update sw now s = Inr (True, ?s')"
    using update_menu [OF assms(1,2), of sw now] buttonPhase_redraw [of sw now ?m]
    by (simp add: prod_eq_iff)
  with idx wrap show ?thesis
    by (simp add: Let_def)
qed

theorem update_menu_selection_witness:
  "state (UIManager_init\<lparr>encoderDelta := - 1\<rparr>) = UI_MENU
   \<and> encoderDelta (UIManager_init\<lparr>encoderDelta := - 1\<rparr>) \<noteq> 0
   \<and> length (parameters (UIManager_init\<lparr>encoderDelta := - 1\<rparr>)) < 256
   \<and> unat (currentParamIndex (UIManager_init\<lparr>encoderDelta := - 1\<rparr>))
       < length (parameters (UIManager_init\<lparr>encoderDelta := - 1\<rparr>))
   \<and> (\<exists>s'. update False 0 (UIManager_init\<lparr>encoderDelta := - 1\<rparr>) = Inr (True, s')
          \<and> uint (currentParamIndex s') = 21)"
proof -
  let ?s = "UIManager_init\<lparr>encoderDelta := - 1\<rparr>"
  have h: "state ?s = UI_MENU" "encoderDelta ?s \<noteq> 0" "length (parameters ?s) < 256"
    "unat (currentParamIndex ?s) < length (parameters ?s)"
    by (simp_all add: UIManager_init_def parameters_table_def)
  from update_menu_selection [OF h, of False 0]
  have "\<exists>s'. update False 0 ?s = Inr (True, s') \<and> uint (currentParamIndex s') = 21"
    by (simp add: UIManager_init_def parameters_table_def Let_def)
  with h show ?thesis by blast
qed

section \<open>Parameter editing\<close>

subsection \<open>The stored value and the effects of the \<open>UI_EDIT\<close> branch\<close>

lemma ucast_8_16_8: "uint (ucast (ucast (c :: uint8_t) :: int16_t) :: uint8_t) = uint c"
proof -
  have "(ucast (ucast c :: int16_t) :: uint8_t) = c"
    by (rule ucast_up_ucast_id) (simp add: is_up)
  then show ?thesis by (simp only:)
qed

lemma edit_clamp:
  fixes v lo hi :: uint8_t and d :: int16_t
  shows "uint (ucast (if sint ((ucast v :: int16_t) + d) < uint lo then ucast lo
                      else if uint hi < sint ((ucast v :: int16_t) + d) then ucast hi
                      else (ucast v :: int16_t) + d) :: uint8_t)
       = clamp (if uint v + sint d \<le> 32767 then uint v + sint d else uint v + sint d - 65536)
           (uint lo) (uint hi)"
proof -
  let ?w = "(ucast v :: int16_t) + d"
  let ?x = "if uint v + sint d \<le> 32767 then uint v + sint d else uint v + sint d - 65536"
  have w: "sint ?w = ?x"
    by (rule sint_widened_sum)
  consider (below) "sint ?w < uint lo" | (above) "\<not> sint ?w < uint lo" "uint hi < sint ?w"
    | (inside) "uint lo \<le> sint ?w" "sint ?w \<le> uint hi"
    by linarith
  then show ?thesis
  proof cases
    case below
    then show ?thesis
      by (simp only: w [symmetric] clamp_def if_True ucast_8_16_8)
  next
    case above
    then show ?thesis
      by (simp only: w [symmetric] clamp_def if_True if_False ucast_8_16_8)
  next
    case inside
    with uint8_bounds [of lo] uint8_bounds [of hi]
    have "0 \<le> sint ?w" "sint ?w < 256" by linarith+
    then have "uint (ucast ?w :: uint8_t) = sint ?w"
      by (rule uint_narrowed)
    moreover from inside have "\<not> sint ?w < uint lo" "\<not> uint hi < sint ?w" by linarith+
    ultimately show ?thesis
      by (simp only: w [symmetric] clamp_def if_False)
  qed
qed


lemma newParamValue_clamp:
  "uint (newParamValue p d) =
     clamp (if uint (value_p p) + sint d \<le> 32767 then uint (value_p p) + sint d
            else uint (value_p p) + sint d - 65536)
       (uint (minVal p)) (uint (maxVal p))"
  unfolding newParamValue_def Let_def by (rule edit_clamp)

lemma editParameter_in_range:
  assumes "unat (currentParamIndex s) < length (parameters s)"
  shows "editParameter d s =
     Inr (s\<lparr>parameters := (parameters s)[unat (currentParamIndex s) :=
              (parameters s ! unat (currentParamIndex s))
                \<lparr>value_p := newParamValue (parameters s ! unat (currentParamIndex s)) d\<rparr>],
            callbackLog :=
              (if parameterCallback s
               then callbackLog s @ [(cc (parameters s ! unat (currentParamIndex s)),
                      newParamValue (parameters s ! unat (currentParamIndex s)) d)]
               else callbackLog s)\<rparr>)"
  using assms by (simp add: editParameter_def Let_def)

lemma update_edit_result:
  assumes "state s = UI_EDIT" and "encoderDelta s \<noteq> 0"
    and "unat (currentParamIndex s) < length (parameters s)"
  shows "\<exists>s'. update sw now s = Inr (True, s')
     \<and> parameters s' = (parameters s)[unat (currentParamIndex s) :=
              (parameters s ! unat (currentParamIndex s))
                \<lparr>value_p := newParamValue (parameters s ! unat (currentParamIndex s)) (encoderDelta s)\<rparr>]
     \<and> callbackLog s' =
              (if parameterCallback s
               then callbackLog s @ [(cc (parameters s ! unat (currentParamIndex s)),
                      newParamValue (parameters s ! unat (currentParamIndex s)) (encoderDelta s))]
               else callbackLog s)"
proof -
  let ?s0 = "s\<lparr>encoderDelta := 0\<rparr>"
  have "unat (currentParamIndex ?s0) < length (parameters ?s0)"
    using assms(3) by simp
  from editParameter_in_range [OF this, of "encoderDelta s"]
  obtain e where e: "editParameter (encoderDelta s) ?s0 = Inr e"
    and "parameters e = (parameters s)[unat (currentParamIndex s) :=
              (parameters s ! unat (currentParamIndex s))
                \<lparr>value_p := newParamValue (parameters s ! unat (currentParamIndex s)) (encoderDelta s)\<rparr>]"
    and "callbackLog e =
              (if parameterCallback s
               then callbackLog s @ [(cc (parameters s ! unat (currentParamIndex s)),
                      newParamValue (parameters s ! unat (currentParamIndex s)) (encoderDelta s))]
               else callbackLog s)"
    by simp
  moreover have "update sw now s = Inr (True, snd (buttonPhase sw now True e))"
    using update_edit [OF assms(1,2), of sw now] buttonPhase_redraw [of sw now e]
    by (simp add: e prod_eq_iff)
  ultimately show ?thesis
    by (simp add: buttonPhase_keeps)
qed

subsection \<open>Clamping\<close>

text \<open>
  C8, as stated for every delta, fails where the 16-bit sum overflows: with \<open>Volume\<close> at 76
  (bounds 0 and 127) and a drained delta of 32767, \<open>value + delta = 32843\<close> is -32693 as
  an \<open>int16_t\<close>, the lower test fires, and the stored value and the callback argument are
  \<open>minVal = 0\<close>, where \<open>clamp(76 + 32767, 0, 127) = 127\<close>.
\<close>

theorem update_edit_wraps_past_int16:
  "update False 0 (UIManager_init\<lparr>state := UI_EDIT, parameterCallback := True, encoderDelta := 32767\<rparr>)
     = Inr (True, UIManager_init\<lparr>state := UI_EDIT, parameterCallback := True,
              callbackLog := [(7, 0)],
              parameters := parameters_table[0 := mkParameter ''Volume'' 7 0 0 127]\<rparr>)
   \<and> parameters_table ! 0 = mkParameter ''Volume'' 7 76 0 127
   \<and> clamp (76 + 32767) 0 127 = 127"
  by (simp add: update_def drainDelta_def editParameter_def newParamValue_def readButton_def
      UIManager_init_def parameters_table_def mkParameter_def clamp_def)

text \<open>
  C8, amended. In Edit mode with \<open>delta \<noteq> 0\<close>, for every parameter \<open>p\<close> at a selected
  index in range and every delta with \<open>p.value + delta \<le> 32767\<close> (the sum fits an
  \<open>int16_t\<close>; it cannot fall below -32768), the stored value after \<open>update\<close> is
  \<open>clamp(p.value + delta, p.minVal, p.maxVal)\<close> and nothing else of the array changes;
  a callback invocation, if any, is one call with \<open>(p.cc, stored value)\<close>, and there is
  one when a callback is registered and the stored value differs from the previous one.
  From \<open>value = 125\<close>, bounds 0 and 127, \<open>delta = +8\<close>: the value becomes 127 and the
  callback receives 127.
\<close>

theorem update_edit_clamps:
  assumes "state s = UI_EDIT" and "encoderDelta s \<noteq> 0"
    and "unat (currentParamIndex s) < length (parameters s)"
    and "uint (value_p (parameters s ! unat (currentParamIndex s))) + sint (encoderDelta s) \<le> 32767"
  shows "\<exists>s'. update sw now s = Inr (True, s') \<and>
     (let i = unat (currentParamIndex s); p = parameters s ! i; p' = parameters s' ! i
      in uint (value_p p') =
           clamp (uint (value_p p) + sint (encoderDelta s)) (uint (minVal p)) (uint (maxVal p))
         \<and> parameters s' = (parameters s)[i := p\<lparr>value_p := value_p p'\<rparr>]
         \<and> (callbackLog s' = callbackLog s
              \<or> callbackLog s' = callbackLog s @ [(cc p, value_p p')])
         \<and> (parameterCallback s \<and> value_p p' \<noteq> value_p p
              \<longrightarrow> callbackLog s' = callbackLog s @ [(cc p, value_p p')]))"
proof -
  let ?i = "unat (currentParamIndex s)"
  let ?p = "parameters s ! ?i"
  let ?v = "newParamValue ?p (encoderDelta s)"
  from update_edit_result [OF assms(1-3), of sw now]
  obtain s' where run: "update sw now s = Inr (True, s')"
    and ps: "parameters s' = (parameters s)[?i := ?p\<lparr>value_p := ?v\<rparr>]"
    and log: "callbackLog s' =
       (if parameterCallback s then callbackLog s @ [(cc ?p, ?v)] else callbackLog s)"
    by blast
  from ps assms(3) have v: "value_p (parameters s' ! ?i) = ?v"
    by simp
  have "uint ?v = clamp (uint (value_p ?p) + sint (encoderDelta s)) (uint (minVal ?p)) (uint (maxVal ?p))"
    using assms(4) by (simp add: newParamValue_clamp)
  with run ps log v show ?thesis
    by (auto simp: Let_def)
qed

theorem update_edit_clamps_witness:
  "state (UIManager_init\<lparr>state := UI_EDIT, parameterCallback := True, encoderDelta := 8,
        parameters := parameters_table[0 := mkParameter ''Volume'' 7 125 0 127]\<rparr>) = UI_EDIT
   \<and> encoderDelta (UIManager_init\<lparr>state := UI_EDIT, parameterCallback := True, encoderDelta := 8,
        parameters := parameters_table[0 := mkParameter ''Volume'' 7 125 0 127]\<rparr>) \<noteq> 0
   \<and> unat (currentParamIndex (UIManager_init\<lparr>state := UI_EDIT, parameterCallback := True, encoderDelta := 8,
        parameters := parameters_table[0 := mkParameter ''Volume'' 7 125 0 127]\<rparr>))
       < length (parameters (UIManager_init\<lparr>state := UI_EDIT, parameterCallback := True, encoderDelta := 8,
        parameters := parameters_table[0 := mkParameter ''Volume'' 7 125 0 127]\<rparr>))
   \<and> uint (value_p (parameters (UIManager_init\<lparr>state := UI_EDIT, parameterCallback := True, encoderDelta := 8,
        parameters := parameters_table[0 := mkParameter ''Volume'' 7 125 0 127]\<rparr>)
          ! unat (currentParamIndex (UIManager_init\<lparr>state := UI_EDIT, parameterCallback := True, encoderDelta := 8,
        parameters := parameters_table[0 := mkParameter ''Volume'' 7 125 0 127]\<rparr>))))
       + sint (encoderDelta (UIManager_init\<lparr>state := UI_EDIT, parameterCallback := True, encoderDelta := 8,
        parameters := parameters_table[0 := mkParameter ''Volume'' 7 125 0 127]\<rparr>)) \<le> 32767
   \<and> (\<exists>s'. update False 0
          (UIManager_init\<lparr>state := UI_EDIT, parameterCallback := True, encoderDelta := 8,
             parameters := parameters_table[0 := mkParameter ''Volume'' 7 125 0 127]\<rparr>)
          = Inr (True, s')
        \<and> uint (value_p (parameters s' ! 0)) = 127
        \<and> callbackLog s' = [(7, value_p (parameters s' ! 0))])"
proof -
  let ?s = "UIManager_init\<lparr>state := UI_EDIT, parameterCallback := True, encoderDelta := 8,
        parameters := parameters_table[0 := mkParameter ''Volume'' 7 125 0 127]\<rparr>"
  have h: "state ?s = UI_EDIT" "encoderDelta ?s \<noteq> 0"
    "unat (currentParamIndex ?s) < length (parameters ?s)"
    "uint (value_p (parameters ?s ! unat (currentParamIndex ?s))) + sint (encoderDelta ?s) \<le> 32767"
    by (simp_all add: UIManager_init_def parameters_table_def mkParameter_def)
  from update_edit_clamps [OF h, of False 0]
  obtain s' where run: "update False 0 ?s = Inr (True, s')"
    and v: "uint (value_p (parameters s' ! 0)) = 127"
    and log: "value_p (parameters s' ! 0) \<noteq> 125 \<longrightarrow> callbackLog s' = [(7, value_p (parameters s' ! 0))]"
    by (auto simp: Let_def UIManager_init_def parameters_table_def mkParameter_def clamp_def)
  from v have "value_p (parameters s' ! 0) \<noteq> 125"
    by auto
  with run v log have "\<exists>s'. update False 0 ?s = Inr (True, s')
        \<and> uint (value_p (parameters s' ! 0)) = 127
        \<and> callbackLog s' = [(7, value_p (parameters s' ! 0))]"
    by blast
  with h show ?thesis
    by blast
qed

subsection \<open>Redraw and change notification\<close>

text \<open>
  C3, as stated, fails: with \<open>Wave\<close> at its lower bound 0 and a drained delta of -1 in Edit
  mode, the clamped value equals the old value, yet \<open>update\<close> returns \<open>needsRedraw = True\<close>
  and the registered callback is called with \<open>(18, 0)\<close>.
\<close>

theorem update_edit_unchanged_value_notifies:
  "update False 0 (UIManager_init\<lparr>state := UI_EDIT, currentParamIndex := 1,
       parameterCallback := True, encoderDelta := - 1\<rparr>)
     = Inr (True, UIManager_init\<lparr>state := UI_EDIT, currentParamIndex := 1,
              parameterCallback := True, callbackLog := [(18, 0)]\<rparr>)
   \<and> parameters_table ! 1 = mkParameter ''Wave '' 18 0 0 127
   \<and> clamp (0 + (- 1)) 0 127 = 0"
  by (simp add: update_def drainDelta_def editParameter_def newParamValue_def readButton_def
      UIManager_init_def parameters_table_def mkParameter_def clamp_def)

text \<open>
  C3, amended. In Edit mode with \<open>delta \<noteq> 0\<close> and the selected index in range, \<open>update\<close>
  marks the redraw flag whether or not the new value differs from the previous one. The
  stored value is the clamped value \<open>newParamValue\<close>. The callback log grows by at most
  one call, \<open>(cc, stored value)\<close>; it grows by that call when a callback is registered and
  the stored value differs from the previous value, and not at all when no callback is
  registered.
\<close>

theorem update_edit_redraw_and_callback:
  assumes "state s = UI_EDIT" and "encoderDelta s \<noteq> 0"
    and "unat (currentParamIndex s) < length (parameters s)"
  shows "\<exists>s'. update sw now s = Inr (True, s') \<and>
     (let i = unat (currentParamIndex s); p = parameters s ! i; p' = parameters s' ! i
      in value_p p' = newParamValue p (encoderDelta s)
         \<and> (callbackLog s' = callbackLog s
              \<or> callbackLog s' = callbackLog s @ [(cc p, value_p p')])
         \<and> (parameterCallback s \<and> value_p p' \<noteq> value_p p
              \<longrightarrow> callbackLog s' = callbackLog s @ [(cc p, value_p p')])
         \<and> (\<not> parameterCallback s \<longrightarrow> callbackLog s' = callbackLog s))"
proof -
  let ?i = "unat (currentParamIndex s)"
  let ?p = "parameters s ! ?i"
  let ?v = "newParamValue ?p (encoderDelta s)"
  from update_edit_result [OF assms, of sw now]
  obtain s' where run: "update sw now s = Inr (True, s')"
    and ps: "parameters s' = (parameters s)[?i := ?p\<lparr>value_p := ?v\<rparr>]"
    and log: "callbackLog s' =
       (if parameterCallback s then callbackLog s @ [(cc ?p, ?v)] else callbackLog s)"
    by blast
  from ps assms(3) have "value_p (parameters s' ! ?i) = ?v"
    by simp
  with run log show ?thesis
    by (auto simp: Let_def)
qed

theorem update_edit_redraw_and_callback_witness:
  "state (UIManager_init\<lparr>state := UI_EDIT, currentParamIndex := 1,
       parameterCallback := True, encoderDelta := 1\<rparr>) = UI_EDIT
   \<and> encoderDelta (UIManager_init\<lparr>state := UI_EDIT, currentParamIndex := 1,
       parameterCallback := True, encoderDelta := 1\<rparr>) \<noteq> 0
   \<and> unat (currentParamIndex (UIManager_init\<lparr>state := UI_EDIT, currentParamIndex := 1,
       parameterCallback := True, encoderDelta := 1\<rparr>))
       < length (parameters (UIManager_init\<lparr>state := UI_EDIT, currentParamIndex := 1,
       parameterCallback := True, encoderDelta := 1\<rparr>))
   \<and> (\<exists>s'. update False 0 (UIManager_init\<lparr>state := UI_EDIT, currentParamIndex := 1,
            parameterCallback := True, encoderDelta := 1\<rparr>) = Inr (True, s')
        \<and> value_p (parameters s' ! 1) = 1
        \<and> callbackLog s' = [(18, 1)])
   \<and> (\<exists>s'. update False 0 (UIManager_init\<lparr>state := UI_EDIT, currentParamIndex := 1,
            parameterCallback := False, encoderDelta := 1\<rparr>) = Inr (True, s')
        \<and> callbackLog s' = [])"
proof -
  let ?s = "UIManager_init\<lparr>state := UI_EDIT, currentParamIndex := 1,
       parameterCallback := True, encoderDelta := 1\<rparr>"
  let ?t = "UIManager_init\<lparr>state := UI_EDIT, currentParamIndex := 1,
       parameterCallback := False, encoderDelta := 1\<rparr>"
  have h: "state ?s = UI_EDIT" "encoderDelta ?s \<noteq> 0"
    "unat (currentParamIndex ?s) < length (parameters ?s)"
    by (simp_all add: UIManager_init_def parameters_table_def)
  have k: "state ?t = UI_EDIT" "encoderDelta ?t \<noteq> 0"
    "unat (currentParamIndex ?t) < length (parameters ?t)"
    by (simp_all add: UIManager_init_def parameters_table_def)
  have nv: "newParamValue (mkParameter ''Wave '' 18 0 0 127) 1 = 1"
    by (simp add: newParamValue_def mkParameter_def)
  from update_edit_redraw_and_callback [OF h, of False 0]
  have a: "\<exists>s'. update False 0 ?s = Inr (True, s') \<and> value_p (parameters s' ! 1) = 1
        \<and> callbackLog s' = [(18, 1)]"
    by (auto simp: Let_def UIManager_init_def parameters_table_def nv) (simp_all add: mkParameter_def)
  from update_edit_redraw_and_callback [OF k, of False 0]
  have b: "\<exists>s'. update False 0 ?t = Inr (True, s') \<and> callbackLog s' = []"
    by (auto simp: Let_def UIManager_init_def)
  from h a b show ?thesis
    by blast
qed

section \<open>Button debouncing\<close>

lemma readButton_event:
  "fst (readButton raw now s) \<longleftrightarrow> \<not> raw \<and> lastButtonState s \<and> 100 < now - lastButtonTime s"
  by (simp add: readButton_def)

lemma readButton_state:
  "snd (readButton raw now s) =
     (if raw \<noteq> lastButtonState s \<and> 100 < now - lastButtonTime s
      then s\<lparr>lastButtonState := raw, lastButtonTime := now\<rparr> else s)"
  by (auto simp: readButton_def)

lemma pollButton_debouncer_spec:
  "pollButton polls s = debouncer_spec polls (lastButtonState s) (lastButtonTime s)"
proof (induction polls arbitrary: s)
  case Nil
  show ?case by simp
next
  case (Cons poll polls)
  obtain raw now where poll: "poll = (raw, now)"
    by (cases poll)
  show ?case
  proof (cases "raw \<noteq> lastButtonState s \<and> 100 < now - lastButtonTime s")
    case True
    then have "snd (readButton raw now s) = s\<lparr>lastButtonState := raw, lastButtonTime := now\<rparr>"
      by (simp add: readButton_state)
    moreover from True have "fst (readButton raw now s) = (\<not> raw)"
      by (auto simp: readButton_event)
    ultimately show ?thesis
      using True Cons.IH [of "s\<lparr>lastButtonState := raw, lastButtonTime := now\<rparr>"]
      by (auto simp: poll)
  next
    case False
    then have "snd (readButton raw now s) = s"
      by (simp only: readButton_state if_False)
    moreover from False have "\<not> fst (readButton raw now s)"
      by (auto simp: readButton_event)
    ultimately show ?thesis
      using False Cons.IH [of s] by (auto simp: poll)
  qed
qed

text \<open>
  C9. At every poll, \<open>readButton\<close> reports a press exactly when the level read is \<open>LOW\<close>
  (pressed), the stored stable level is \<open>HIGH\<close> (released) and the time since the last
  committed transition, \<open>now - lastButtonTime\<close> in unsigned 32-bit arithmetic, exceeds 100.
  It commits the level and the time exactly when the level read differs from the stable
  level and that time exceeds 100, and changes nothing otherwise: an edge within 100
  time-units of the last committed transition gives no event and no change, and a
  release gives no event and only updates the stable level and the timestamp. Hence
  for every sequence of polls the events reported are those of the specification's
  debouncer. (An edge is a poll whose level differs from the stable level; a level that
  still differs at a later poll, past the 100 time-units, is committed at that poll.)
\<close>

theorem readButton_debounce:
  "fst (readButton raw now s) = (\<not> raw \<and> lastButtonState s \<and> 100 < now - lastButtonTime s)
   \<and> snd (readButton raw now s) =
       (if raw \<noteq> lastButtonState s \<and> 100 < now - lastButtonTime s
        then s\<lparr>lastButtonState := raw, lastButtonTime := now\<rparr> else s)
   \<and> pollButton polls s = debouncer_spec polls (lastButtonState s) (lastButtonTime s)"
  by (simp only: readButton_event readButton_state pollButton_debouncer_spec simp_thms)

section \<open>Step accumulation in the interrupt handler\<close>

lemma pinCode_values:
  "pinCode False False = 0" "pinCode False True = 1" "pinCode True False = 2" "pinCode True True = 3"
  by (simp_all add: pinCode_def)

lemma pinCode_range: "pinCode a b \<in> {0, 1, 2, 3}"
  by (cases a; cases b) (simp_all add: pinCode_values)

lemma pin_code_cases:
  fixes p :: uint8_t
  assumes "unat p < 4"
  shows "p \<in> {0, 1, 2, 3}"
proof -
  from assms have "unat p = 0 \<or> unat p = 1 \<or> unat p = 2 \<or> unat p = 3"
    by linarith
  then have "unat p = unat (0 :: uint8_t) \<or> unat p = unat (1 :: uint8_t)
      \<or> unat p = unat (2 :: uint8_t) \<or> unat p = unat (3 :: uint8_t)"
    by simp
  then show ?thesis
    by (simp only: word_unat_eq_iff [symmetric] insert_iff empty_iff simp_thms)
qed

lemma accumulator_cases:
  fixes acc :: int8_t
  assumes "\<bar>sint acc\<bar> < 2"
  shows "acc \<in> {0, 1, - 1}"
proof -
  from assms have "sint acc = 0 \<or> sint acc = 1 \<or> sint acc = - 1"
    by linarith
  then have "sint acc = sint (0 :: int8_t) \<or> sint acc = sint (1 :: int8_t)
      \<or> sint acc = sint (- 1 :: int8_t)"
    by simp
  then show ?thesis
    by (auto intro: signed_word_eqI)
qed

lemma quadratureLookup_range:
  assumes "p \<in> {0, 1, 2, 3}" and "c \<in> {0, 1, 2, 3}"
  shows "\<exists>raw. quadratureLookup p c = Inr raw \<and> raw \<in> {0, 1, - 1}"
  using assms by (auto simp: quadratureLookup_def kQuadratureTable_def)


lemma handleEncoderInterrupt_step:
  assumes "unat (lastEncoderState s) < 4" and "\<bar>sint (stepAccumulator s)\<bar> < 2"
  shows "\<exists>raw s'. quadratureLookup (lastEncoderState s) (pinCode a b) = Inr raw
      \<and> handleEncoderInterrupt a b now s = Inr s'
      \<and> (if raw \<noteq> 0 \<and> 2 \<le> \<bar>sint (stepAccumulator s) + sint raw\<bar>
          then stepAccumulator s' = 0 \<and> lastEncoderTime s' = now
            \<and> encoderDelta s' = encoderDelta s
                + (if 0 < sint (stepAccumulator s) + sint raw then 1 else - 1)
                  * ucast (calculateAcceleration (now - lastEncoderTime s))
          else sint (stepAccumulator s') = sint (stepAccumulator s) + sint raw
            \<and> \<bar>sint (stepAccumulator s')\<bar> < 2
            \<and> lastEncoderTime s' = lastEncoderTime s
            \<and> encoderDelta s' = encoderDelta s)
      \<and> unat (lastEncoderState s') < 4 \<and> \<bar>sint (stepAccumulator s')\<bar> < 2"
proof -
  from assms(1) have "lastEncoderState s \<in> {0, 1, 2, 3}"
    by (rule pin_code_cases)
  with pinCode_range [of a b]
  obtain raw where raw: "quadratureLookup (lastEncoderState s) (pinCode a b) = Inr raw"
    and range: "raw \<in> {0, 1, - 1}"
    using quadratureLookup_range by blast
  have code: "unat (pinCode a b) < 4"
    using pinCode_range [of a b] by auto
  from assms(2) have acc: "stepAccumulator s \<in> {0, 1, - 1}"
    by (rule accumulator_cases)
  from range acc code show ?thesis
    by (auto simp: handleEncoderInterrupt_def raw Let_def addEncoderDelta_def)
qed
lemma runInterrupts_invariant:
  assumes "unat (lastEncoderState s) < 4" and "\<bar>sint (stepAccumulator s)\<bar> < 2"
  shows "\<exists>t. runInterrupts evs s = Inr t
      \<and> unat (lastEncoderState t) < 4 \<and> \<bar>sint (stepAccumulator t)\<bar> < 2"
  using assms
proof (induction evs arbitrary: s)
  case Nil
  then show ?case by simp
next
  case (Cons ev evs)
  obtain a b now where ev: "ev = (a, b, now)"
    by (cases ev)
  from handleEncoderInterrupt_step [OF Cons.prems, of a b now]
  obtain s' where step: "handleEncoderInterrupt a b now s = Inr s'"
    and inv: "unat (lastEncoderState s') < 4" "\<bar>sint (stepAccumulator s')\<bar> < 2"
    by blast
  from Cons.IH [OF inv] step show ?case
    by (simp add: ev)
qed

text \<open>
  C6. From any state whose step accumulator has absolute value below 2 (it starts at 0)
  and whose stored pin code is a 2-bit code, every sequence of interrupts \<open>evs\<close> runs
  without fault and again ends with the accumulator's absolute value below 2. At the next
  interrupt, with quarter-step \<open>raw\<close> from the table: if \<open>raw\<close> is non-zero and the
  accumulator plus \<open>raw\<close> reaches absolute value 2, the handler adds one detent to the
  pending delta, the acceleration multiplier with the sign of the accumulator, stamps
  the time, and resets the accumulator to 0; otherwise the accumulator becomes the sum,
  still below 2 in absolute value, and the pending delta and the time stamp are unchanged.
\<close>

theorem stepAccumulator_detents:
  assumes "unat (lastEncoderState s) < 4" and "\<bar>sint (stepAccumulator s)\<bar> < 2"
  shows "\<exists>t raw t'. runInterrupts evs s = Inr t \<and> \<bar>sint (stepAccumulator t)\<bar> < 2
      \<and> quadratureLookup (lastEncoderState t) (pinCode a b) = Inr raw
      \<and> handleEncoderInterrupt a b now t = Inr t'
      \<and> (if raw \<noteq> 0 \<and> 2 \<le> \<bar>sint (stepAccumulator t) + sint raw\<bar>
          then stepAccumulator t' = 0 \<and> lastEncoderTime t' = now
            \<and> encoderDelta t' = encoderDelta t
                + (if 0 < sint (stepAccumulator t) + sint raw then 1 else - 1)
                  * ucast (calculateAcceleration (now - lastEncoderTime t))
          else sint (stepAccumulator t') = sint (stepAccumulator t) + sint raw
            \<and> \<bar>sint (stepAccumulator t')\<bar> < 2
            \<and> lastEncoderTime t' = lastEncoderTime t
            \<and> encoderDelta t' = encoderDelta t)"
proof -
  from runInterrupts_invariant [OF assms, of evs]
  obtain t where run: "runInterrupts evs s = Inr t"
    and inv: "unat (lastEncoderState t) < 4" "\<bar>sint (stepAccumulator t)\<bar> < 2"
    by blast
  from handleEncoderInterrupt_step [OF inv, of a b now] run inv(2) show ?thesis
    by blast
qed

theorem stepAccumulator_detents_witness:
  "unat (lastEncoderState UIManager_init) < 4
   \<and> \<bar>sint (stepAccumulator UIManager_init)\<bar> < 2
   \<and> (\<exists>t t'. runInterrupts [(False, True, 10)] UIManager_init = Inr t
         \<and> sint (stepAccumulator t) = 1 \<and> encoderDelta t = 0
         \<and> handleEncoderInterrupt True True 20 t = Inr t'
         \<and> stepAccumulator t' = 0 \<and> encoderDelta t' = 2 \<and> lastEncoderTime t' = 20)"
proof -
  have h: "unat (lastEncoderState UIManager_init) < 4" "\<bar>sint (stepAccumulator UIManager_init)\<bar> < 2"
    by (simp_all add: UIManager_init_def)
  have run: "runInterrupts [(False, True, 10)] UIManager_init
      = Inr (UIManager_init\<lparr>lastEncoderState := 1, stepAccumulator := 1\<rparr>)"
    by (simp add: handleEncoderInterrupt_def quadratureLookup_def kQuadratureTable_def
        pinCode_def UIManager_init_def)
  have tbl: "quadratureLookup 1 (pinCode True True) = Inr 1"
    by (simp add: quadratureLookup_def kQuadratureTable_def pinCode_def)
  from stepAccumulator_detents [OF h, of "[(False, True, 10)]" True True 20]
  obtain t raw t' where r: "runInterrupts [(False, True, 10)] UIManager_init = Inr t"
    and q: "quadratureLookup (lastEncoderState t) (pinCode True True) = Inr raw"
    and st: "handleEncoderInterrupt True True 20 t = Inr t'"
    and eff: "if raw \<noteq> 0 \<and> 2 \<le> \<bar>sint (stepAccumulator t) + sint raw\<bar>
          then stepAccumulator t' = 0 \<and> lastEncoderTime t' = 20
            \<and> encoderDelta t' = encoderDelta t
                + (if 0 < sint (stepAccumulator t) + sint raw then 1 else - 1)
                  * ucast (calculateAcceleration (20 - lastEncoderTime t))
          else sint (stepAccumulator t') = sint (stepAccumulator t) + sint raw
            \<and> \<bar>sint (stepAccumulator t')\<bar> < 2
            \<and> lastEncoderTime t' = lastEncoderTime t
            \<and> encoderDelta t' = encoderDelta t"
    by blast
  from r have t: "t = UIManager_init\<lparr>lastEncoderState := 1, stepAccumulator := 1\<rparr>"
    by (simp only: run sum.inject)
  have fields: "lastEncoderState t = 1" "stepAccumulator t = 1" "encoderDelta t = 0"
    "lastEncoderTime t = 0"
    by (simp_all add: t UIManager_init_def)
  from q have raw: "raw = 1"
    by (simp add: fields tbl)
  from eff have "stepAccumulator t' = 0 \<and> encoderDelta t' = 2 \<and> lastEncoderTime t' = 20"
    by (simp add: fields raw calculateAcceleration_def)
  moreover have "sint (stepAccumulator t) = 1"
    by (simp add: fields)
  ultimately have "\<exists>t t'. runInterrupts [(False, True, 10)] UIManager_init = Inr t
         \<and> sint (stepAccumulator t) = 1 \<and> encoderDelta t = 0
         \<and> handleEncoderInterrupt True True 20 t = Inr t'
         \<and> stepAccumulator t' = 0 \<and> encoderDelta t' = 2 \<and> lastEncoderTime t' = 20"
    using r st fields(3) by blast
  with h show ?thesis
    by blast
qed

section \<open>The pending delta: additions and the drain\<close>

lemma fold_addEncoderDelta:
  "fold addEncoderDelta ds s = s\<lparr>encoderDelta := encoderDelta s + sum_list ds\<rparr>"
proof (induction ds arbitrary: s)
  case Nil
  show ?case by simp
next
  case (Cons d ds)
  have "fold addEncoderDelta (d # ds) s = fold addEncoderDelta ds (addEncoderDelta d s)"
    by simp
  also have "\<dots> = (addEncoderDelta d s)
      \<lparr>encoderDelta := encoderDelta (addEncoderDelta d s) + sum_list ds\<rparr>"
    by (rule Cons.IH)
  also have "\<dots> = s\<lparr>encoderDelta := encoderDelta s + sum_list (d # ds)\<rparr>"
    by (simp add: addEncoderDelta_def add.assoc)
  finally show ?case .
qed

lemma drainDelta_as_shift: "snd (drainDelta s) = addEncoderDelta (- encoderDelta s) s"
  by (simp add: drainDelta_def addEncoderDelta_def)

lemma handleEncoderInterrupt_shift:
  "handleEncoderInterrupt a b now (addEncoderDelta k s)
     = map_sum id (addEncoderDelta k) (handleEncoderInterrupt a b now s)"
proof (cases "quadratureLookup (lastEncoderState s) (pinCode a b)")
  case (Inl e)
  then show ?thesis
    by (simp add: handleEncoderInterrupt_def addEncoderDelta_def)
next
  case (Inr raw)
  then show ?thesis
    by (simp add: handleEncoderInterrupt_def addEncoderDelta_def Let_def)
qed

lemma runInterrupts_shift:
  "runInterrupts evs (addEncoderDelta k s) = map_sum id (addEncoderDelta k) (runInterrupts evs s)"
proof (induction evs arbitrary: s)
  case Nil
  show ?case by simp
next
  case (Cons ev evs)
  obtain a b now where ev: "ev = (a, b, now)"
    by (cases ev)
  show ?case
  proof (cases "handleEncoderInterrupt a b now s")
    case (Inl e)
    then show ?thesis
      by (simp add: ev handleEncoderInterrupt_shift)
  next
    case (Inr s')
    then show ?thesis
      by (simp add: ev handleEncoderInterrupt_shift Cons.IH)
  qed
qed

lemma sint16_self: "signed_take_bit 15 (sint (d :: int16_t)) = sint d"
  using sint16_bounds [of d] by (intro signed_take_bit_int_eq_self) simp_all

lemma sint_sum_list: "sint (sum_list ds :: int16_t) = signed_take_bit 15 (\<Sum>d\<leftarrow>ds. sint d)"
proof (induction ds)
  case Nil
  show ?case by simp
next
  case (Cons d ds)
  have "sint (d + sum_list ds) = signed_take_bit 15 (sint d + sint (sum_list ds))"
    by (simp add: sint_word_ariths)
  also have "\<dots> = signed_take_bit 15
      (signed_take_bit 15 (sint d) + signed_take_bit 15 (\<Sum>d\<leftarrow>ds. sint d))"
    by (simp only: Cons.IH sint16_self)
  also have "\<dots> = signed_take_bit 15 (sint d + (\<Sum>d\<leftarrow>ds. sint d))"
    by (rule signed_take_bit_add)
  finally show ?case by simp
qed

text \<open>
  C5, as stated for any \<open>N\<close> and \<open>S\<close>, fails where the total leaves the range of the
  \<open>int16_t\<close> accumulator: 8192 additions of +4 (fast detents) after a drain total 32768,
  and the drain returns -32768. At the handler: with 32764 pending, one more fast
  detent leaves -32768 pending.
\<close>

theorem drainDelta_wraps_past_int16:
  "(\<Sum>d\<leftarrow>replicate 8192 (4 :: int16_t). sint d) = 32768
   \<and> sint (fst (drainDelta (fold addEncoderDelta (replicate 8192 4)
         (snd (drainDelta UIManager_init))))) = - 32768
   \<and> handleEncoderInterrupt True True 5
         (UIManager_init\<lparr>lastEncoderState := 1, stepAccumulator := 1, encoderDelta := 32764\<rparr>)
       = Inr (UIManager_init\<lparr>lastEncoderState := 3, lastEncoderTime := 5,
                encoderDelta := - 32768\<rparr>)"
proof -
  have "(\<Sum>d\<leftarrow>replicate 8192 (4 :: int16_t). sint d) = sum_list (replicate 8192 (4 :: int))"
    by (simp add: map_replicate)
  also have "\<dots> = 32768"
    by (simp add: sum_list_replicate)
  finally have total: "(\<Sum>d\<leftarrow>replicate 8192 (4 :: int16_t). sint d) = 32768" .
  have "fst (drainDelta (fold addEncoderDelta (replicate 8192 4) (snd (drainDelta UIManager_init))))
      = sum_list (replicate 8192 (4 :: int16_t))"
    by (simp only: fold_addEncoderDelta) (simp add: drainDelta_def)
  also have "\<dots> = 32768"
    by (simp add: sum_list_replicate)
  finally have drained: "sint (fst (drainDelta (fold addEncoderDelta (replicate 8192 4)
         (snd (drainDelta UIManager_init))))) = - 32768"
    by simp
  have isr: "handleEncoderInterrupt True True 5
         (UIManager_init\<lparr>lastEncoderState := 1, stepAccumulator := 1, encoderDelta := 32764\<rparr>)
       = Inr (UIManager_init\<lparr>lastEncoderState := 3, lastEncoderTime := 5,
                encoderDelta := - 32768\<rparr>)"
    by (simp add: handleEncoderInterrupt_def quadratureLookup_def kQuadratureTable_def
        pinCode_def calculateAcceleration_def addEncoderDelta_def UIManager_init_def)
  from total drained isr show ?thesis
    by blast
qed

text \<open>
  C5, amended. The drain at the start of \<open>update\<close> returns the pending delta and resets it
  to 0. After a drain, any \<open>N\<close> additions \<open>ds\<close> of the interrupt side whose total \<open>S\<close> lies
  within \<open>[-32768, 32767]\<close> leave exactly \<open>S\<close> pending: the next drain returns \<open>S\<close> and
  leaves the state of the first drain, accumulator 0. (In general the drain returns the
  total in the accumulator's \<open>int16_t\<close> arithmetic.) The first addition after a drain
  starts from 0, and a drain with nothing pending returns 0 and changes nothing. For
  the handler itself: a sequence of interrupts run after a drain ends in the state it
  would end in without the drain, with the drained amount taken off the pending delta,
  so what successive drains return adds up, in that arithmetic, to what one drain
  would have returned. (The critical section makes the drain one step with respect to
  the handler, and the handler runs to completion.)
\<close>

theorem drainDelta_exact:
  "fst (drainDelta (fold addEncoderDelta ds (snd (drainDelta s)))) = sum_list ds
   \<and> snd (drainDelta (fold addEncoderDelta ds (snd (drainDelta s)))) = snd (drainDelta s)
   \<and> encoderDelta (snd (drainDelta s)) = 0
   \<and> encoderDelta (addEncoderDelta d (snd (drainDelta s))) = d
   \<and> fst (drainDelta (snd (drainDelta s))) = 0
   \<and> snd (drainDelta (snd (drainDelta s))) = snd (drainDelta s)
   \<and> runInterrupts evs (snd (drainDelta s))
       = map_sum id (addEncoderDelta (- fst (drainDelta s))) (runInterrupts evs s)
   \<and> (- 32768 \<le> (\<Sum>d\<leftarrow>ds. sint d) \<and> (\<Sum>d\<leftarrow>ds. sint d) \<le> 32767 \<longrightarrow>
        sint (fst (drainDelta (fold addEncoderDelta ds (snd (drainDelta s)))))
          = (\<Sum>d\<leftarrow>ds. sint d))"
proof -
  have pending: "fst (drainDelta (fold addEncoderDelta ds (snd (drainDelta s)))) = sum_list ds"
    by (simp add: fold_addEncoderDelta drainDelta_def)
  have reset: "snd (drainDelta (fold addEncoderDelta ds (snd (drainDelta s)))) = snd (drainDelta s)"
    by (simp add: fold_addEncoderDelta drainDelta_def)
  have zero: "encoderDelta (snd (drainDelta s)) = 0"
    "encoderDelta (addEncoderDelta d (snd (drainDelta s))) = d"
    "fst (drainDelta (snd (drainDelta s))) = 0"
    "snd (drainDelta (snd (drainDelta s))) = snd (drainDelta s)"
    by (simp_all add: drainDelta_def addEncoderDelta_def)
  have isr: "runInterrupts evs (snd (drainDelta s))
       = map_sum id (addEncoderDelta (- fst (drainDelta s))) (runInterrupts evs s)"
    by (simp only: drainDelta_as_shift runInterrupts_shift) (simp add: drainDelta_def)
  have exact: "sint (fst (drainDelta (fold addEncoderDelta ds (snd (drainDelta s)))))
          = (\<Sum>d\<leftarrow>ds. sint d)"
    if "- 32768 \<le> (\<Sum>d\<leftarrow>ds. sint d)" and "(\<Sum>d\<leftarrow>ds. sint d) \<le> 32767"
  proof -
    from that have "signed_take_bit 15 (\<Sum>d\<leftarrow>ds. sint d) = (\<Sum>d\<leftarrow>ds. sint d)"
      by (intro signed_take_bit_int_eq_self) simp_all
    then show ?thesis
      by (simp only: pending sint_sum_list)
  qed
  from pending reset zero isr exact show ?thesis
    by blast
qed

theorem drainDelta_exact_witness:
  "- 32768 \<le> (\<Sum>d\<leftarrow>[4, - 1, 2 :: int16_t]. sint d)
   \<and> (\<Sum>d\<leftarrow>[4, - 1, 2 :: int16_t]. sint d) \<le> 32767
   \<and> fst (drainDelta (UIManager_init\<lparr>encoderDelta := 7\<rparr>)) = 7
   \<and> sint (fst (drainDelta (fold addEncoderDelta [4, - 1, 2]
         (snd (drainDelta (UIManager_init\<lparr>encoderDelta := 7\<rparr>)))))) = 5
   \<and> snd (drainDelta (fold addEncoderDelta [4, - 1, 2]
         (snd (drainDelta (UIManager_init\<lparr>encoderDelta := 7\<rparr>))))) = UIManager_init"
proof -
  have range: "- 32768 \<le> (\<Sum>d\<leftarrow>[4, - 1, 2 :: int16_t]. sint d)"
    "(\<Sum>d\<leftarrow>[4, - 1, 2 :: int16_t]. sint d) \<le> 32767"
    by simp_all
  have total: "(\<Sum>d\<leftarrow>[4, - 1, 2 :: int16_t]. sint d) = 5"
    by simp
  have first: "fst (drainDelta (UIManager_init\<lparr>encoderDelta := 7\<rparr>)) = 7"
    "snd (drainDelta (UIManager_init\<lparr>encoderDelta := 7\<rparr>)) = UIManager_init"
    by (simp_all add: drainDelta_def UIManager_init_def)
  note exact = drainDelta_exact [of "[4, - 1, 2]" "UIManager_init\<lparr>encoderDelta := 7\<rparr>" 4 "[]"]
  from exact have "- 32768 \<le> (\<Sum>d\<leftarrow>[4, - 1, 2 :: int16_t]. sint d)
      \<and> (\<Sum>d\<leftarrow>[4, - 1, 2 :: int16_t]. sint d) \<le> 32767 \<longrightarrow>
      sint (fst (drainDelta (fold addEncoderDelta [4, - 1, 2]
         (snd (drainDelta (UIManager_init\<lparr>encoderDelta := 7\<rparr>))))))
        = (\<Sum>d\<leftarrow>[4, - 1, 2 :: int16_t]. sint d)"
    by blast
  with range have "sint (fst (drainDelta (fold addEncoderDelta [4, - 1, 2]
         (snd (drainDelta (UIManager_init\<lparr>encoderDelta := 7\<rparr>))))))
        = (\<Sum>d\<leftarrow>[4, - 1, 2 :: int16_t]. sint d)"
    by blast
  then have drained: "sint (fst (drainDelta (fold addEncoderDelta [4, - 1, 2]
         (snd (drainDelta (UIManager_init\<lparr>encoderDelta := 7\<rparr>)))))) = 5"
    by (simp only: total)
  from exact have "snd (drainDelta (fold addEncoderDelta [4, - 1, 2]
         (snd (drainDelta (UIManager_init\<lparr>encoderDelta := 7\<rparr>)))))
       = snd (drainDelta (UIManager_init\<lparr>encoderDelta := 7\<rparr>))"
    by blast
  then have after: "snd (drainDelta (fold addEncoderDelta [4, - 1, 2]
         (snd (drainDelta (UIManager_init\<lparr>encoderDelta := 7\<rparr>))))) = UIManager_init"
    by (simp only: first)
  from range first(1) drained after show ?thesis
    by blast
qed

end
